theory Spec2Isabelle
  imports Complex_Main "HOL-Library.Multiset" "HOL-Library.List_Lexorder" "HOL-Library.Char_ord"
begin

section \<open>Data model of \<^verbatim>\<open>newclid/predicates/equal_ratios.py\<close>\<close>

text \<open>
  The two predicate classes of the file. Each class method is a function of its own
  (\<open>EqRatio_check\<close>, \<open>EqRatio3_check\<close>, ...); the dynamic dispatch
  \<^verbatim>\<open>statement.predicate.check(statement)\<close> is a case distinction on \<open>predicate statement\<close>.
\<close>

datatype predicate = EqRatio | EqRatio3

text \<open>The rule identities a dependency can carry; the file uses \<^verbatim>\<open>Ratio_Chase\<close> only.\<close>

datatype rule_tag = Ratio_Chase | Rule string

text \<open>
  A \<^verbatim>\<open>Statement\<close> is a predicate and its arguments (point names before parsing, points
  after). Its \<^verbatim>\<open>dep_graph\<close> is left out: the one part of it the file reads, the ratio table
  \<^verbatim>\<open>statement.dep_graph.ar.rtable\<close>, is passed explicitly.
\<close>

record 'p statement =
  predicate :: predicate
  args :: "'p list"

record 'p dependency =
  statement :: "'p statement"
  reason :: rule_tag
  why :: "'p statement list"

text \<open>The exceptions the code can raise: a failed tuple unpacking, an index out of range,
  a failed assertion, a division by zero in the numerical check, and a missing dictionary
  key.\<close>

datatype error = ValueError | IndexError | AssertionError | ZeroDivisionError | KeyError

text \<open>
  Modelled from the spec: \<^verbatim>\<open>Statement.with_new\<close>, \<^verbatim>\<open>Dependency.with_new\<close> and
  \<^verbatim>\<open>Dependency.mk\<close> are not among the source files. A statement with a new predicate and
  new arguments keeps everything else; a dependency with a new statement keeps its rule tag
  and antecedents; \<^verbatim>\<open>mk\<close> builds the fact from a statement, a rule tag and the ordered
  antecedents.
\<close>

definition with_new :: "'p statement \<Rightarrow> predicate \<Rightarrow> 'p list \<Rightarrow> 'p statement" where
  "with_new s new_predicate new_args = s\<lparr>predicate := new_predicate, args := new_args\<rparr>"

definition dep_with_new :: "'p dependency \<Rightarrow> 'p statement \<Rightarrow> 'p dependency" where
  "dep_with_new dep new_statement = dep\<lparr>statement := new_statement\<rparr>"

definition mk :: "'p statement \<Rightarrow> rule_tag \<Rightarrow> 'p statement list \<Rightarrow> 'p dependency" where
  "mk s r ws = \<lparr>statement = s, reason = r, why = ws\<rparr>"

text \<open>
  Modelled from the spec: the closure table (\<^verbatim>\<open>newclid.algebraic_reasoning.tables\<close>) is not
  among the source files. Its operations are parameters: \<open>get_length\<close> and
  \<open>get_equal_difference_up_to\<close> build a quantity and a linear term without touching stored
  state, \<open>add_expr\<close> returns the table with the term asserted, \<open>expr_delta\<close> answers whether
  the term holds, \<open>table_why\<close> returns the ordered facts that explain it.
\<close>

record ('p, 't, 'v, 'e) table_ops =
  get_length :: "'p \<Rightarrow> 'p \<Rightarrow> 'v"
  get_equal_difference_up_to :: "'v \<Rightarrow> 'v \<Rightarrow> 'v \<Rightarrow> 'v \<Rightarrow> 'e"
  add_expr :: "'t \<Rightarrow> 'e \<Rightarrow> 'p dependency \<Rightarrow> 't"
  expr_delta :: "'t \<Rightarrow> 'e \<Rightarrow> bool"
  table_why :: "'t \<Rightarrow> 'e \<Rightarrow> 'p dependency list"

text \<open>
  Modelled from the spec: the numeric model (\<^verbatim>\<open>Point.num.distance\<close>, float division and
  \<^verbatim>\<open>newclid.numerical.close_enough\<close>) is not among the source files. The three operations
  are parameters over an abstract type of measurements; division may raise.
\<close>

record ('p, 'f) numerics =
  distance :: "'p \<Rightarrow> 'p \<Rightarrow> 'f"
  fdiv :: "'f \<Rightarrow> 'f \<Rightarrow> error + 'f"
  close_enough :: "'f \<Rightarrow> 'f \<Rightarrow> bool"

text \<open>
  Modelled from the spec: \<^verbatim>\<open>newclid.tools.reshape\<close> is not among the source files. With
  \<open>n = 4\<close> it cuts the arguments into the successive 4-point groups; a length that is not a
  multiple of 4 is an error.
\<close>

fun reshape4 :: "'a list \<Rightarrow> error + ('a \<times> 'a \<times> 'a \<times> 'a) list" where
  "reshape4 [] = Inr []"
| "reshape4 (a # b # c # d # rest) =
     (case reshape4 rest of Inl e \<Rightarrow> Inl e | Inr gs \<Rightarrow> Inr ((a, b, c, d) # gs))"
| "reshape4 _ = Inl AssertionError"

section \<open>\<^verbatim>\<open>EqRatio\<close>\<close>

text \<open>\<^verbatim>\<open>EqRatio.preparse\<close> and \<^verbatim>\<open>EqRatio.parse\<close> hand their arguments to \<^verbatim>\<open>EqAngle\<close>, which
  is not among the source files: its two class methods are parameters.\<close>

definition EqRatio_preparse :: "(string list \<Rightarrow> 'r) \<Rightarrow> string list \<Rightarrow> 'r" where
  "EqRatio_preparse EqAngle_preparse args' = EqAngle_preparse args'"

definition EqRatio_parse :: "(string list \<Rightarrow> 'g \<Rightarrow> 'r) \<Rightarrow> string list \<Rightarrow> 'g \<Rightarrow> 'r" where
  "EqRatio_parse EqAngle_parse args' dep_graph = EqAngle_parse args' dep_graph"

text \<open>The loop of \<^verbatim>\<open>EqRatio.check_numerical\<close>, with the variable \<^verbatim>\<open>ratio\<close> as an argument
  (\<open>None\<close> before the first group).\<close>

fun check_numerical_loop ::
  "('p, 'f) numerics \<Rightarrow> 'f option \<Rightarrow> ('p \<times> 'p \<times> 'p \<times> 'p) list \<Rightarrow> error + bool" where
  "check_numerical_loop N ratio [] = Inr True"
| "check_numerical_loop N ratio ((a, b, c, d) # rest) =
     (case fdiv N (distance N a b) (distance N c d) of
        Inl e \<Rightarrow> Inl e
      | Inr ratio' \<Rightarrow>
          (if ratio \<noteq> None \<and> \<not> close_enough N (the ratio) ratio' then Inr False
           else check_numerical_loop N (Some ratio') rest))"

definition EqRatio_check_numerical :: "('p, 'f) numerics \<Rightarrow> 'p statement \<Rightarrow> error + bool" where
  "EqRatio_check_numerical N s =
     (case reshape4 (args s) of
        Inl e \<Rightarrow> Inl e
      | Inr groups \<Rightarrow> check_numerical_loop N None groups)"

text \<open>\<^verbatim>\<open>EqRatio._prep_ar\<close>: the \<^verbatim>\<open>while\<close> loop over \<open>i = 4, 8, ...\<close>; reading
  \<^verbatim>\<open>points[i + 3]\<close> past the end raises.\<close>

function prep_ar_loop ::
  "('p, 't, 'v, 'e) table_ops \<Rightarrow> 'p list \<Rightarrow> nat \<Rightarrow> 'e list \<Rightarrow> error + 'e list" where
  "prep_ar_loop ops points i eqs =
     (if i < length points then
        (if i + 3 < length points then
           prep_ar_loop ops points (i + 4)
             (eqs @ [get_equal_difference_up_to ops
                (get_length ops (points ! 0) (points ! 1))
                (get_length ops (points ! 2) (points ! 3))
                (get_length ops (points ! i) (points ! (i + 1)))
                (get_length ops (points ! (i + 2)) (points ! (i + 3)))])
         else Inl IndexError)
      else Inr eqs)"
  by pat_completeness auto
termination
  by (relation "measure (\<lambda>(ops, points, i, eqs). length points - i)") auto

definition prep_ar :: "('p, 't, 'v, 'e) table_ops \<Rightarrow> 'p statement \<Rightarrow> error + 'e list" where
  "prep_ar ops s = prep_ar_loop ops (args s) 4 []"

definition EqRatio_add ::
  "('p, 't, 'v, 'e) table_ops \<Rightarrow> 'p dependency \<Rightarrow> 't \<Rightarrow> error + 't" where
  "EqRatio_add ops dep table =
     (case prep_ar ops (statement dep) of
        Inl e \<Rightarrow> Inl e
      | Inr eqs \<Rightarrow> Inr (fold (\<lambda>eq t. add_expr ops t eq dep) eqs table))"

definition EqRatio_why ::
  "('p, 't, 'v, 'e) table_ops \<Rightarrow> 't \<Rightarrow> 'p statement \<Rightarrow> error + 'p dependency" where
  "EqRatio_why ops table s =
     (case prep_ar ops s of
        Inl e \<Rightarrow> Inl e
      | Inr eqs \<Rightarrow>
          Inr (mk s Ratio_Chase (map statement (concat (map (table_why ops table) eqs)))))"

definition EqRatio_check ::
  "('p, 't, 'v, 'e) table_ops \<Rightarrow> 't \<Rightarrow> 'p statement \<Rightarrow> error + bool" where
  "EqRatio_check ops table s =
     (case prep_ar ops s of
        Inl e \<Rightarrow> Inl e
      | Inr eqs \<Rightarrow> Inr (list_all (expr_delta ops table) eqs))"

text \<open>An f-string of tokens separated by single spaces.\<close>

fun unwords :: "string list \<Rightarrow> string" where
  "unwords [] = []"
| "unwords [t] = t"
| "unwords (t # ts) = t @ '' '' @ unwords ts"

text \<open>\<^verbatim>\<open>EqRatio.to_constructive\<close>: the eight tests in the source's order; when none
  succeeds the method falls off its end and returns \<^verbatim>\<open>None\<close>.\<close>

fun to_constructive :: "string \<Rightarrow> string list \<Rightarrow> error + string option" where
  "to_constructive point [a, b, c, d, e, f, g, h] =
     (if point = h then Inr (Some (unwords [''eqratio'', h, a, b, c, d, e, f, g]))
      else if point = g then Inr (Some (unwords [''eqratio'', g, a, b, c, d, e, f, h]))
      else if point = f then Inr (Some (unwords [''eqratio'', f, c, d, a, b, g, h, e]))
      else if point = e then Inr (Some (unwords [''eqratio'', e, c, d, a, b, g, h, f]))
      else if point = d then Inr (Some (unwords [''eqratio'', d, e, f, g, h, a, b, c]))
      else if point = c then Inr (Some (unwords [''eqratio'', c, e, f, g, h, a, b, d]))
      else if point = b then Inr (Some (unwords [''eqratio'', b, g, h, e, f, c, d, a]))
      else if point = a then Inr (Some (unwords [''eqratio'', a, g, h, e, f, c, d, b]))
      else Inr None)"
| "to_constructive point _ = Inl ValueError"


section \<open>\<^verbatim>\<open>EqRatio3\<close>\<close>

text \<open>
  \<^verbatim>\<open>Predicate.custom_key\<close> is not among the source files: it is the parameter \<open>custom_key\<close>,
  a key into any linear order. Python compares the key lists \<^verbatim>\<open>[custom_key(arg) for arg in pair]\<close>
  lexicographically, which is the order of lists here. \<^verbatim>\<open>sorted\<close> is stable, as \<open>sort_key\<close>
  is, and \<^verbatim>\<open>min\<close> of two values returns the first unless the second has a strictly smaller
  key.
\<close>

definition pair_key :: "(string \<Rightarrow> 'k) \<Rightarrow> string \<times> string \<Rightarrow> 'k list" where
  "pair_key custom_key pair = map custom_key [fst pair, snd pair]"

definition groups_key :: "(string \<Rightarrow> 'k) \<Rightarrow> (string \<times> string) list \<Rightarrow> 'k list list" where
  "groups_key custom_key pair = map (\<lambda>arg. [custom_key (fst arg), custom_key (snd arg)]) pair"

definition py_min2 :: "('a \<Rightarrow> 'b::linorder) \<Rightarrow> 'a \<Rightarrow> 'a \<Rightarrow> 'a" where
  "py_min2 key x y = (if key y < key x then y else x)"

definition sum_tuples :: "(string \<times> string) list \<Rightarrow> string list" where
  "sum_tuples gs = concat (map (\<lambda>g. [fst g, snd g]) gs)"

fun EqRatio3_preparse ::
  "(string \<Rightarrow> 'k::linorder) \<Rightarrow> string list \<Rightarrow> error + string list option" where
  "EqRatio3_preparse custom_key [a, b, c, d, m, n] =
     (if card (set [a, c, m]) < 3 \<or> card (set [b, d, n]) < 3 then Inr None
      else
        let groups = [(a, b), (c, d), (m, n)];
            groups1 = [(b, a), (d, c), (n, m)];
            sorted_groups = sort_key (pair_key custom_key) groups;
            sorted_groups1 = sort_key (pair_key custom_key) groups1
        in Inr (Some (sum_tuples
             (py_min2 (groups_key custom_key) sorted_groups sorted_groups1))))"
| "EqRatio3_preparse custom_key _ = Inl ValueError"

text \<open>\<^verbatim>\<open>EqRatio3.parse\<close>; \<^verbatim>\<open>names2points\<close> of the symbols graph is a parameter. An empty
  tuple is falsy in Python, as \<^verbatim>\<open>None\<close> is.\<close>

definition EqRatio3_parse ::
  "(string \<Rightarrow> 'k::linorder) \<Rightarrow> (string list \<Rightarrow> 'p list) \<Rightarrow> string list
     \<Rightarrow> error + 'p list option" where
  "EqRatio3_parse custom_key names2points args' =
     (case EqRatio3_preparse custom_key args' of
        Inl e \<Rightarrow> Inl e
      | Inr None \<Rightarrow> Inr None
      | Inr (Some preparse) \<Rightarrow>
          (if preparse \<noteq> [] then Inr (Some (names2points preparse)) else Inr None))"

text \<open>The choice \<^verbatim>\<open>preparse\<close> makes, as a function of the list of groups: the sorted groups,
  or the sorted reversed groups when their key is strictly smaller.\<close>

definition canon :: "(string \<Rightarrow> 'k::linorder) \<Rightarrow> (string \<times> string) list \<Rightarrow> (string \<times> string) list" where
  "canon custom_key groups =
     py_min2 (groups_key custom_key)
       (sort_key (pair_key custom_key) groups)
       (sort_key (pair_key custom_key) (map prod.swap groups))"

text \<open>The three primitive statements an \<^verbatim>\<open>eqratio3\<close> statement with points
  \<open>(a, b, c, d, m, n)\<close> stands for, as the four methods of \<^verbatim>\<open>EqRatio3\<close> build them.\<close>

definition eqr1 :: "'p statement \<Rightarrow> 'p \<Rightarrow> 'p \<Rightarrow> 'p \<Rightarrow> 'p \<Rightarrow> 'p \<Rightarrow> 'p \<Rightarrow> 'p statement" where
  "eqr1 s a b c d m n = with_new s EqRatio [m, a, m, c, n, b, n, d]"

definition eqr2 :: "'p statement \<Rightarrow> 'p \<Rightarrow> 'p \<Rightarrow> 'p \<Rightarrow> 'p \<Rightarrow> 'p \<Rightarrow> 'p \<Rightarrow> 'p statement" where
  "eqr2 s a b c d m n = with_new s EqRatio [m, a, a, c, b, n, b, d]"

definition eqr3 :: "'p statement \<Rightarrow> 'p \<Rightarrow> 'p \<Rightarrow> 'p \<Rightarrow> 'p \<Rightarrow> 'p \<Rightarrow> 'p \<Rightarrow> 'p statement" where
  "eqr3 s a b c d m n = with_new s EqRatio [m, c, a, c, n, d, b, d]"

text \<open>Python's \<^verbatim>\<open>x and y\<close> on results: \<open>y\<close> is evaluated only when \<open>x\<close> returned true.\<close>

definition and_then :: "error + bool \<Rightarrow> error + bool \<Rightarrow> error + bool" where
  "and_then x y = (case x of Inl e \<Rightarrow> Inl e | Inr b \<Rightarrow> if b then y else Inr False)"

text \<open>
  Modelled from the spec: \<^verbatim>\<open>Statement.check_numerical\<close>, \<^verbatim>\<open>Statement.check\<close> and
  \<^verbatim>\<open>Dependency.add\<close> are not among the source files. Each applies the operation of the same
  name of the statement's predicate. The methods of \<^verbatim>\<open>EqRatio3\<close> call them on the
  statements they build, so each is defined together with its dispatcher.
\<close>

function EqRatio3_check_numerical :: "('p, 'f) numerics \<Rightarrow> 'p statement \<Rightarrow> error + bool"
  and Statement_check_numerical :: "('p, 'f) numerics \<Rightarrow> 'p statement \<Rightarrow> error + bool" where
  "EqRatio3_check_numerical N s =
     (case args s of
        [a, b, c, d, m, n] \<Rightarrow>
          and_then (Statement_check_numerical N (eqr1 s a b c d m n))
            (and_then (Statement_check_numerical N (eqr2 s a b c d m n))
               (Statement_check_numerical N (eqr3 s a b c d m n)))
      | _ \<Rightarrow> Inl ValueError)"
| "Statement_check_numerical N s =
     (case predicate s of
        EqRatio \<Rightarrow> EqRatio_check_numerical N s
      | EqRatio3 \<Rightarrow> EqRatio3_check_numerical N s)"
  by pat_completeness auto
termination
  by (relation "measure (\<lambda>x. case x of Inl _ \<Rightarrow> 2
        | Inr (N, s) \<Rightarrow> if predicate s = EqRatio3 then 3 else 1)")
     (auto simp: eqr1_def eqr2_def eqr3_def with_new_def)

function EqRatio3_check ::
    "('p, 't, 'v, 'e) table_ops \<Rightarrow> 't \<Rightarrow> 'p statement \<Rightarrow> error + bool"
  and Statement_check ::
    "('p, 't, 'v, 'e) table_ops \<Rightarrow> 't \<Rightarrow> 'p statement \<Rightarrow> error + bool" where
  "EqRatio3_check ops table s =
     (case args s of
        [a, b, c, d, m, n] \<Rightarrow>
          and_then (Statement_check ops table (eqr1 s a b c d m n))
            (and_then (Statement_check ops table (eqr2 s a b c d m n))
               (Statement_check ops table (eqr3 s a b c d m n)))
      | _ \<Rightarrow> Inl ValueError)"
| "Statement_check ops table s =
     (case predicate s of
        EqRatio \<Rightarrow> EqRatio_check ops table s
      | EqRatio3 \<Rightarrow> EqRatio3_check ops table s)"
  by pat_completeness auto
termination
  by (relation "measure (\<lambda>x. case x of Inl _ \<Rightarrow> 2
        | Inr (ops, table, s) \<Rightarrow> if predicate s = EqRatio3 then 3 else 1)")
     (auto simp: eqr1_def eqr2_def eqr3_def with_new_def)

text \<open>\<^verbatim>\<open>EqRatio3.add\<close>: three calls in sequence, each on the table the one before left; an
  exception ends the sequence.\<close>

function EqRatio3_add ::
    "('p, 't, 'v, 'e) table_ops \<Rightarrow> 'p dependency \<Rightarrow> 't \<Rightarrow> error + 't"
  and Dependency_add ::
    "('p, 't, 'v, 'e) table_ops \<Rightarrow> 'p dependency \<Rightarrow> 't \<Rightarrow> error + 't" where
  "EqRatio3_add ops dep table =
     (case args (statement dep) of
        [a, b, c, d, m, n] \<Rightarrow>
          (case Dependency_add ops (dep_with_new dep (eqr1 (statement dep) a b c d m n)) table of
             Inl e \<Rightarrow> Inl e
           | Inr table1 \<Rightarrow>
          (case Dependency_add ops (dep_with_new dep (eqr2 (statement dep) a b c d m n)) table1 of
             Inl e \<Rightarrow> Inl e
           | Inr table2 \<Rightarrow>
             Dependency_add ops (dep_with_new dep (eqr3 (statement dep) a b c d m n)) table2))
      | _ \<Rightarrow> Inl ValueError)"
| "Dependency_add ops dep table =
     (case predicate (statement dep) of
        EqRatio \<Rightarrow> EqRatio_add ops dep table
      | EqRatio3 \<Rightarrow> EqRatio3_add ops dep table)"
  by pat_completeness auto
termination
  by (relation "measure (\<lambda>x. case x of Inl _ \<Rightarrow> 2
        | Inr (ops, dep, table) \<Rightarrow> if predicate (statement dep) = EqRatio3 then 3 else 1)")
     (auto simp: eqr1_def eqr2_def eqr3_def with_new_def dep_with_new_def)

text \<open>\<^verbatim>\<open>EqRatio3.why\<close> reads no table: the antecedents are the three statements it builds.\<close>

definition EqRatio3_why :: "'p statement \<Rightarrow> error + 'p dependency" where
  "EqRatio3_why s =
     (case args s of
        [a, b, c, d, m, n] \<Rightarrow>
          Inr (mk s Ratio_Chase [eqr1 s a b c d m n, eqr2 s a b c d m n, eqr3 s a b c d m n])
      | _ \<Rightarrow> Inl ValueError)"


section \<open>\<^verbatim>\<open>newclid/visualization/vis_proof.py\<close>: the layers of a proof trace\<close>

text \<open>
  \<^verbatim>\<open>parse_proof_relations\<close> cuts the text between the \<^verbatim>\<open>proof\<close> tags at the semicolons and
  reads each line with regular expressions. The model starts from what the expressions
  extract from a line, one constructor for each way the loop body can go:
  \<^item> \<open>NoConclusion\<close>: the pattern of a conclusion, a text that ends with a bracketed
    three-digit number, does not match, and the line is skipped;
  \<^item> \<open>NoRule concl_part concl_label\<close>: the conclusion and its label are found, and what is
    left of the line does not start with a rule name;
  \<^item> \<open>Step concl_part concl_label rule_name premise_labels\<close>: the conclusion, its label, the
    rule name, and every three-digit number of the rest of the line, in order.

  The second test of the loop (no label in the conclusion) cannot fail, since the conclusion
  matched a pattern that ends with the label. The text without the tags is \<open>None\<close>.
\<close>

datatype proof_line =
    NoConclusion
  | NoRule string string
  | Step string string string "string list"

text \<open>The six values \<^verbatim>\<open>parse_proof_relations\<close> returns.\<close>

record proof_graph =
  stmt_map :: "string \<rightharpoonup> string"
  fact_nodes :: "string set"
  rule_nodes :: "string set"
  edges :: "(string \<times> string) list"
  node_layer :: "string \<rightharpoonup> int"
  initial_fact_nodes :: "string set"

text \<open>\<^verbatim>\<open>str\<close> of a natural number.\<close>

definition digit_char :: "nat \<Rightarrow> char" where
  "digit_char n = ''0123456789'' ! n"

function show_nat :: "nat \<Rightarrow> string" where
  "show_nat n = (if n < 10 then [digit_char n] else show_nat (n div 10) @ [digit_char (n mod 10)])"
  by pat_completeness auto
termination
  by (relation "measure (\<lambda>n. n)") auto

declare show_nat.simps [simp del]

definition startswith :: "string \<Rightarrow> string \<Rightarrow> bool" where
  "startswith s p = (take (length p) s = p)"

text \<open>The name of the rule node: \<^verbatim>\<open>r_\<close>, the rule name, and one more than the number of
  rule nodes that start with \<^verbatim>\<open>r_\<close> and the rule name.\<close>

definition new_rule_node :: "string set \<Rightarrow> string \<Rightarrow> string" where
  "new_rule_node rns name =
     ''r_'' @ name @ ''_'' @
       show_nat (card {rn \<in> rns. startswith rn (''r_'' @ name)} + 1)"

text \<open>\<^verbatim>\<open>[node_layer[p] for p in valid_premises]\<close>, where a missing key raises, and \<^verbatim>\<open>max\<close> of
  the list, which is only taken of a list that is not empty.\<close>

fun lookup_layers :: "(string \<rightharpoonup> int) \<Rightarrow> string list \<Rightarrow> error + int list" where
  "lookup_layers nl [] = Inr []"
| "lookup_layers nl (p # ps) =
     (case nl p of
        None \<Rightarrow> Inl KeyError
      | Some l \<Rightarrow> (case lookup_layers nl ps of Inl e \<Rightarrow> Inl e | Inr ls \<Rightarrow> Inr (l # ls)))"

fun max_list :: "int list \<Rightarrow> int" where
  "max_list [] = 0"
| "max_list [x] = x"
| "max_list (x # xs) = max x (max_list xs)"

text \<open>The first part of the loop body: the conclusion becomes a fact node, on layer 1 when
  it has no layer yet.\<close>

definition register_conclusion :: "proof_graph \<Rightarrow> string \<Rightarrow> string \<Rightarrow> proof_graph" where
  "register_conclusion g concl_part concl_label =
     g\<lparr>stmt_map := (stmt_map g)(concl_label \<mapsto> concl_part),
       fact_nodes := insert concl_label (fact_nodes g),
       node_layer := (if concl_label \<notin> dom (node_layer g)
                      then (node_layer g)(concl_label \<mapsto> 1) else node_layer g)\<rparr>"

text \<open>The loop body. The rule node is added to \<^verbatim>\<open>rule_nodes\<close> before the test for valid
  premises, and the layers and edges are written after it.\<close>

fun proof_step :: "proof_graph \<Rightarrow> proof_line \<Rightarrow> error + proof_graph" where
  "proof_step g NoConclusion = Inr g"
| "proof_step g (NoRule concl_part concl_label) =
     Inr (register_conclusion g concl_part concl_label)"
| "proof_step g (Step concl_part concl_label rule_name premise_labels) =
     (let g1 = register_conclusion g concl_part concl_label;
          rule_node = new_rule_node (rule_nodes g1) rule_name;
          g2 = g1\<lparr>rule_nodes := insert rule_node (rule_nodes g1)\<rparr>;
          valid_premises = filter (\<lambda>p. p \<in> dom (stmt_map g2)) premise_labels
      in if valid_premises = [] then Inr g2
         else
           (case lookup_layers (node_layer g2) valid_premises of
              Inl e \<Rightarrow> Inl e
            | Inr prem_layers \<Rightarrow>
                let max_prem_layer = max_list prem_layers;
                    rule_layer = max_prem_layer + 1;
                    concl_layer = rule_layer + 1
                in Inr (g2\<lparr>node_layer :=
                            (node_layer g2)(rule_node \<mapsto> rule_layer, concl_label \<mapsto> concl_layer),
                          edges := edges g2 @ map (\<lambda>p. (p, rule_node)) valid_premises
                                     @ [(rule_node, concl_label)]\<rparr>)))"

fun proof_steps :: "proof_graph \<Rightarrow> proof_line list \<Rightarrow> error + proof_graph" where
  "proof_steps g [] = Inr g"
| "proof_steps g (l # ls) =
     (case proof_step g l of Inl e \<Rightarrow> Inl e | Inr g' \<Rightarrow> proof_steps g' ls)"

definition initial_graph :: "(string \<rightharpoonup> string) \<Rightarrow> proof_graph" where
  "initial_graph initial_stmt_map =
     \<lparr>stmt_map = initial_stmt_map,
      fact_nodes = dom initial_stmt_map,
      rule_nodes = {},
      edges = [],
      node_layer = (\<lambda>label. if label \<in> dom initial_stmt_map then Some 1 else None),
      initial_fact_nodes = dom initial_stmt_map\<rparr>"

definition parse_proof_relations ::
  "proof_line list option \<Rightarrow> (string \<rightharpoonup> string) \<Rightarrow> error + proof_graph option" where
  "parse_proof_relations proof_lines initial_stmt_map =
     (case proof_lines of
        None \<Rightarrow> Inr None
      | Some ls \<Rightarrow>
          (case proof_steps (initial_graph initial_stmt_map) ls of
             Inl e \<Rightarrow> Inl e
           | Inr g \<Rightarrow> Inr (Some g)))"

text \<open>\<^verbatim>\<open>adjust_node_layers\<close> runs over the set \<^verbatim>\<open>rule_nodes\<close>, in an order Python does not
  fix: the order is the argument \<open>rule_order\<close>. \<^verbatim>\<open>node_layer.get(rule_node, 0)\<close> reads 0 for
  a rule node with no layer.\<close>

definition adjust_rule ::
  "(string \<times> string) list \<Rightarrow> (string \<rightharpoonup> int) \<Rightarrow> string \<Rightarrow> (string \<rightharpoonup> int)" where
  "adjust_rule es nl rule_node =
     (let premises = map fst (filter (\<lambda>e. snd e = rule_node) es)
      in if premises = [] then nl
         else
           let rule_layer = (case nl rule_node of None \<Rightarrow> 0 | Some l \<Rightarrow> l)
           in if rule_layer mod 2 = 0
              then fold (\<lambda>p nl'. nl'(p \<mapsto> rule_layer - 1)) premises nl
              else nl)"

definition adjust_node_layers ::
  "string list \<Rightarrow> (string \<times> string) list \<Rightarrow> (string \<rightharpoonup> int) \<Rightarrow> (string \<rightharpoonup> int)" where
  "adjust_node_layers rule_order es nl = fold (\<lambda>rule_node nl'. adjust_rule es nl' rule_node) rule_order nl"

text \<open>The layer \<^verbatim>\<open>export_to_json\<close> writes for a node: \<^verbatim>\<open>node_layer.get(node, 1)\<close>.\<close>

definition exported_layer :: "(string \<rightharpoonup> int) \<Rightarrow> string \<Rightarrow> int" where
  "exported_layer nl n = (case nl n of None \<Rightarrow> 1 | Some l \<Rightarrow> l)"

text \<open>The input the loop body expects: labels are three digits, as the patterns make them.
  \<open>layered\<close> is the invariant of the loop and \<open>parity\<close> the part of it that
  \<^verbatim>\<open>adjust_node_layers\<close> keeps: facts on odd layers, and rule nodes that have a layer on an
  even one.\<close>

definition is_label :: "string \<Rightarrow> bool" where
  "is_label s = (length s = 3 \<and> list_all (\<lambda>c. c \<in> set ''0123456789'') s)"

fun wf_line :: "proof_line \<Rightarrow> bool" where
  "wf_line NoConclusion = True"
| "wf_line (NoRule concl_part concl_label) = is_label concl_label"
| "wf_line (Step concl_part concl_label rule_name premise_labels) = is_label concl_label"

definition layered :: "proof_graph \<Rightarrow> bool" where
  "layered g =
     (dom (stmt_map g) = fact_nodes g
      \<and> dom (node_layer g) \<subseteq> fact_nodes g \<union> rule_nodes g
      \<and> (\<forall>f \<in> fact_nodes g. \<exists>l. node_layer g f = Some l \<and> odd l)
      \<and> (\<forall>f \<in> fact_nodes g. \<not> startswith f ''r_'')
      \<and> (\<forall>r \<in> rule_nodes g. startswith r ''r_'')
      \<and> (\<forall>r \<in> rule_nodes g. \<forall>l. node_layer g r = Some l \<longrightarrow> even l)
      \<and> (\<forall>(u, v) \<in> set (edges g).
            (u \<in> fact_nodes g \<and> v \<in> rule_nodes g) \<or> (u \<in> rule_nodes g \<and> v \<in> fact_nodes g)))"

definition parity :: "string set \<Rightarrow> string set \<Rightarrow> (string \<rightharpoonup> int) \<Rightarrow> bool" where
  "parity F R nl =
     ((\<forall>f \<in> F. \<exists>l. nl f = Some l \<and> odd l) \<and> (\<forall>r \<in> R. \<forall>l. nl r = Some l \<longrightarrow> even l))"

section \<open>The claims' own words\<close>

text \<open>
  Two definitions that follow the wording of the claims rather than the source, to compare
  the source with. \<open>gathered\<close> is the list of the statements of the facts that the table's
  \<^verbatim>\<open>why\<close> returns for the expressions of a primitive statement, in order. \<open>group_ratio\<close> is the
  ratio \<^verbatim>\<open>EqRatio.check_numerical\<close> computes for one 4-point group, and \<open>close_to_first\<close> says
  that every later ratio of a list is close enough to the first.
\<close>

definition gathered ::
  "('p, 't, 'v, 'e) table_ops \<Rightarrow> 't \<Rightarrow> 'p statement \<Rightarrow> 'p statement list" where
  "gathered ops table s =
     (case prep_ar ops s of
        Inl e \<Rightarrow> []
      | Inr eqs \<Rightarrow> map statement (concat (map (table_why ops table) eqs)))"

definition group_ratio :: "('p, 'f) numerics \<Rightarrow> 'p \<times> 'p \<times> 'p \<times> 'p \<Rightarrow> error + 'f" where
  "group_ratio N g = (case g of (a, b, c, d) \<Rightarrow> fdiv N (distance N a b) (distance N c d))"

definition close_to_first :: "('p, 'f) numerics \<Rightarrow> 'f list \<Rightarrow> bool" where
  "close_to_first N rs = (case rs of [] \<Rightarrow> True | r0 # rest \<Rightarrow> list_all (close_enough N r0) rest)"

section \<open>A concrete table for the closed examples\<close>

text \<open>A table that stores the asserted terms in a list, with pairs of points as quantities;
  it stands for the closure table only where a theorem is applied to concrete values.\<close>

definition list_table_ops ::
  "('p, (('p \<times> 'p) \<times> ('p \<times> 'p) \<times> ('p \<times> 'p) \<times> ('p \<times> 'p)) list, 'p \<times> 'p,
    ('p \<times> 'p) \<times> ('p \<times> 'p) \<times> ('p \<times> 'p) \<times> ('p \<times> 'p)) table_ops" where
  "list_table_ops =
     \<lparr>get_length = (\<lambda>p q. (p, q)),
      get_equal_difference_up_to = (\<lambda>w x y z. (w, x, y, z)),
      add_expr = (\<lambda>t e dep. t @ [e]),
      expr_delta = (\<lambda>t e. e \<in> set t),
      table_why = (\<lambda>t e. [])\<rparr>"

definition st6 :: "nat statement" where
  "st6 = \<lparr>predicate = EqRatio3, args = [1, 2, 3, 4, 5, 6]\<rparr>"

text \<open>A table that also records, with every asserted term, the dependency that asserted it,
  and returns for a term the dependencies recorded with it.\<close>

definition fact_table_ops ::
  "('p, ((('p \<times> 'p) \<times> ('p \<times> 'p) \<times> ('p \<times> 'p) \<times> ('p \<times> 'p)) \<times> 'p dependency) list, 'p \<times> 'p,
    ('p \<times> 'p) \<times> ('p \<times> 'p) \<times> ('p \<times> 'p) \<times> ('p \<times> 'p)) table_ops" where
  "fact_table_ops =
     \<lparr>get_length = (\<lambda>p q. (p, q)),
      get_equal_difference_up_to = (\<lambda>w x y z. (w, x, y, z)),
      add_expr = (\<lambda>t e dep. t @ [(e, dep)]),
      expr_delta = (\<lambda>t e. e \<in> fst ` set t),
      table_why = (\<lambda>t e. map snd (filter (\<lambda>x. fst x = e) t))\<rparr>"

definition given6 :: "nat dependency" where
  "given6 = mk st6 (Rule ''given'') []"

definition table6 ::
  "(((nat \<times> nat) \<times> (nat \<times> nat) \<times> (nat \<times> nat) \<times> (nat \<times> nat)) \<times> nat dependency) list" where
  "table6 =
     [(((5, 1), (5, 3), (6, 2), (6, 4)), given6),
      (((5, 1), (1, 3), (2, 6), (2, 4)), given6),
      (((5, 3), (1, 3), (6, 4), (2, 4)), given6)]"

text \<open>Points on a line with exact rational measurements: distances, division that raises on
  a zero divisor, and closeness as a difference below a tolerance.\<close>

definition line_numerics :: "rat \<Rightarrow> (int, rat) numerics" where
  "line_numerics tol =
     \<lparr>distance = (\<lambda>p q. \<bar>of_int q - of_int p\<bar>),
      fdiv = (\<lambda>x y. if y = 0 then Inl ZeroDivisionError else Inr (x / y)),
      close_enough = (\<lambda>x y. \<bar>x - y\<bar> < tol)\<rparr>"

definition s12 :: "int statement" where
  "s12 = \<lparr>predicate = EqRatio, args = [0, 1, 0, 1, 0, 2, 0, 1, 0, 3, 0, 1]\<rparr>"

definition st3 :: "int statement" where
  "st3 = \<lparr>predicate = EqRatio3, args = [0, 10, 4, 14, 2, 12]\<rparr>"

text \<open>A proof with one line, \<^verbatim>\<open>cong a b c d [002] a00 [009]\<close>, whose only premise is not a
  known fact, after one initial fact.\<close>

definition initial1 :: "string \<rightharpoonup> string" where
  "initial1 = [''001'' \<mapsto> ''coll a b c [001]'']"

definition lines1 :: "proof_line list" where
  "lines1 = [Step ''cong a b c d [002]'' ''002'' ''a00'' [''009'']]"

definition graph1 :: proof_graph where
  "graph1 =
     \<lparr>stmt_map = [''001'' \<mapsto> ''coll a b c [001]'', ''002'' \<mapsto> ''cong a b c d [002]''],
      fact_nodes = {''002'', ''001''},
      rule_nodes = {''r_a00_1''},
      edges = [],
      node_layer = [''001'' \<mapsto> 1, ''002'' \<mapsto> 1],
      initial_fact_nodes = {''001''}\<rparr>"

section \<open>The decomposition of \<^verbatim>\<open>eqratio3\<close>\<close>

declare EqRatio3_add.simps [simp del] EqRatio3_check.simps [simp del]
  EqRatio3_check_numerical.simps [simp del]

lemma prep_ar_8:
  "args s = [p0, p1, p2, p3, p4, p5, p6, p7] \<Longrightarrow>
   prep_ar ops s = Inr [get_equal_difference_up_to ops (get_length ops p0 p1)
     (get_length ops p2 p3) (get_length ops p4 p5) (get_length ops p6 p7)]"
  unfolding prep_ar_def
  apply (subst prep_ar_loop.simps)
  apply (subst prep_ar_loop.simps)
  apply simp
  done

lemma eqr_predicate:
  "predicate (eqr1 s a b c d m n) = EqRatio"
  "predicate (eqr2 s a b c d m n) = EqRatio"
  "predicate (eqr3 s a b c d m n) = EqRatio"
  by (simp_all add: eqr1_def eqr2_def eqr3_def with_new_def)

lemma eqr_args:
  "args (eqr1 s a b c d m n) = [m, a, m, c, n, b, n, d]"
  "args (eqr2 s a b c d m n) = [m, a, a, c, b, n, b, d]"
  "args (eqr3 s a b c d m n) = [m, c, a, c, n, d, b, d]"
  by (simp_all add: eqr1_def eqr2_def eqr3_def with_new_def)

lemma Dependency_add_eqr:
  "Dependency_add ops (dep_with_new dep (eqr1 s a b c d m n)) t =
     EqRatio_add ops (dep_with_new dep (eqr1 s a b c d m n)) t"
  "Dependency_add ops (dep_with_new dep (eqr2 s a b c d m n)) t =
     EqRatio_add ops (dep_with_new dep (eqr2 s a b c d m n)) t"
  "Dependency_add ops (dep_with_new dep (eqr3 s a b c d m n)) t =
     EqRatio_add ops (dep_with_new dep (eqr3 s a b c d m n)) t"
  by (simp_all add: eqr_predicate dep_with_new_def)

lemma Statement_check_eqr:
  "Statement_check ops t (eqr1 s a b c d m n) = EqRatio_check ops t (eqr1 s a b c d m n)"
  "Statement_check ops t (eqr2 s a b c d m n) = EqRatio_check ops t (eqr2 s a b c d m n)"
  "Statement_check ops t (eqr3 s a b c d m n) = EqRatio_check ops t (eqr3 s a b c d m n)"
  by (simp_all add: eqr_predicate)

lemma EqRatio_check_eqr_total:
  "\<exists>r. EqRatio_check ops table (eqr1 s a b c d m n) = Inr r"
  "\<exists>r. EqRatio_check ops table (eqr2 s a b c d m n) = Inr r"
  "\<exists>r. EqRatio_check ops table (eqr3 s a b c d m n) = Inr r"
  by (simp_all add: EqRatio_check_def prep_ar_8 [OF eqr_args(1)]
      prep_ar_8 [OF eqr_args(2)] prep_ar_8 [OF eqr_args(3)])

lemma EqRatio_add_eqr_total:
  "\<exists>t. EqRatio_add ops (dep_with_new dep (eqr1 s a b c d m n)) table = Inr t"
  "\<exists>t. EqRatio_add ops (dep_with_new dep (eqr2 s a b c d m n)) table = Inr t"
  "\<exists>t. EqRatio_add ops (dep_with_new dep (eqr3 s a b c d m n)) table = Inr t"
  by (simp_all add: EqRatio_add_def dep_with_new_def prep_ar_8 [OF eqr_args(1)]
      prep_ar_8 [OF eqr_args(2)] prep_ar_8 [OF eqr_args(3)])

lemma fold_snoc: "fold (\<lambda>eq t. t @ [eq]) eqs t = t @ eqs"
  by (induction eqs arbitrary: t) simp_all

lemma EqRatio3_add_unfold:
  assumes "args (statement dep) = [a, b, c, d, m, n]"
  shows "EqRatio3_add ops dep table =
      (case EqRatio_add ops (dep_with_new dep (eqr1 (statement dep) a b c d m n)) table of
         Inl e \<Rightarrow> Inl e
       | Inr table1 \<Rightarrow>
      (case EqRatio_add ops (dep_with_new dep (eqr2 (statement dep) a b c d m n)) table1 of
         Inl e \<Rightarrow> Inl e
       | Inr table2 \<Rightarrow>
         EqRatio_add ops (dep_with_new dep (eqr3 (statement dep) a b c d m n)) table2))"
  unfolding EqRatio3_add.simps [of ops dep table] Dependency_add_eqr
  using assms by simp

lemma EqRatio3_check_unfold:
  assumes "args s = [a, b, c, d, m, n]"
  shows "EqRatio3_check ops table s =
      and_then (EqRatio_check ops table (eqr1 s a b c d m n))
        (and_then (EqRatio_check ops table (eqr2 s a b c d m n))
           (EqRatio_check ops table (eqr3 s a b c d m n)))"
  unfolding EqRatio3_check.simps [of ops table s] Statement_check_eqr
  using assms by simp

lemma list_table_prep_ar:
  "prep_ar list_table_ops (eqr1 s a b c d m n) = Inr [((m, a), (m, c), (n, b), (n, d))]"
  "prep_ar list_table_ops (eqr2 s a b c d m n) = Inr [((m, a), (a, c), (b, n), (b, d))]"
  "prep_ar list_table_ops (eqr3 s a b c d m n) = Inr [((m, c), (a, c), (n, d), (b, d))]"
  by (simp_all add: prep_ar_8 [OF eqr_args(1)] prep_ar_8 [OF eqr_args(2)]
      prep_ar_8 [OF eqr_args(3)] list_table_ops_def)

lemma list_table_add:
  "EqRatio_add list_table_ops dep t =
     (case prep_ar list_table_ops (statement dep) of Inl e \<Rightarrow> Inl e
      | Inr eqs \<Rightarrow> Inr (t @ eqs))"
  by (simp add: EqRatio_add_def list_table_ops_def fold_snoc split: sum.splits)

lemma list_table_check:
  "EqRatio_check list_table_ops t s =
     (case prep_ar list_table_ops s of Inl e \<Rightarrow> Inl e
      | Inr eqs \<Rightarrow> Inr (list_all (\<lambda>e. e \<in> set t) eqs))"
  by (simp add: EqRatio_check_def list_table_ops_def split: sum.splits)

text \<open>
  Claim C1. Asserting an \<^verbatim>\<open>eqratio3\<close> statement with points \<open>(a, b, c, d, m, n)\<close> is the
  same as asserting its three primitive \<^verbatim>\<open>eqratio\<close> statements one after the other:
  \<^verbatim>\<open>EqRatio3.add\<close> is \<^verbatim>\<open>EqRatio.add\<close> on the statements with arguments
  \<open>(m, a, m, c, n, b, n, d)\<close>, \<open>(m, a, a, c, b, n, b, d)\<close>, \<open>(m, c, a, c, n, d, b, d)\<close>, in
  that order, each on the table the one before returned, and it returns a table;
  \<^verbatim>\<open>EqRatio3.check\<close> returns true exactly when \<^verbatim>\<open>EqRatio.check\<close> returns true on each of
  the three, and it always returns a truth value.
\<close>

theorem EqRatio3_add_check_decompose:
  assumes "args (statement dep) = [a, b, c, d, m, n]" and "args s = [a, b, c, d, m, n]"
  shows "EqRatio3_add ops dep table =
      (case EqRatio_add ops (dep_with_new dep (eqr1 (statement dep) a b c d m n)) table of
         Inl e \<Rightarrow> Inl e
       | Inr table1 \<Rightarrow>
      (case EqRatio_add ops (dep_with_new dep (eqr2 (statement dep) a b c d m n)) table1 of
         Inl e \<Rightarrow> Inl e
       | Inr table2 \<Rightarrow>
         EqRatio_add ops (dep_with_new dep (eqr3 (statement dep) a b c d m n)) table2))
    \<and> (\<exists>table'. EqRatio3_add ops dep table = Inr table')
    \<and> ((EqRatio3_check ops table s = Inr True) =
        (EqRatio_check ops table (eqr1 s a b c d m n) = Inr True \<and>
         EqRatio_check ops table (eqr2 s a b c d m n) = Inr True \<and>
         EqRatio_check ops table (eqr3 s a b c d m n) = Inr True))
    \<and> (\<exists>r. EqRatio3_check ops table s = Inr r)"
proof -
  obtain t1 where t1:
    "EqRatio_add ops (dep_with_new dep (eqr1 (statement dep) a b c d m n)) table = Inr t1"
    using EqRatio_add_eqr_total(1) [of ops dep "statement dep" a b c d m n table] by (elim exE)
  obtain t2 where t2:
    "EqRatio_add ops (dep_with_new dep (eqr2 (statement dep) a b c d m n)) t1 = Inr t2"
    using EqRatio_add_eqr_total(2) [of ops dep "statement dep" a b c d m n t1] by (elim exE)
  obtain t3 where t3:
    "EqRatio_add ops (dep_with_new dep (eqr3 (statement dep) a b c d m n)) t2 = Inr t3"
    using EqRatio_add_eqr_total(3) [of ops dep "statement dep" a b c d m n t2] by (elim exE)
  have total_add: "\<exists>table'. EqRatio3_add ops dep table = Inr table'"
    unfolding EqRatio3_add_unfold [OF assms(1)] using t1 t2 t3 by simp
  obtain b1 where b1: "EqRatio_check ops table (eqr1 s a b c d m n) = Inr b1"
    using EqRatio_check_eqr_total(1) [of ops table s a b c d m n] by (elim exE)
  obtain b2 where b2: "EqRatio_check ops table (eqr2 s a b c d m n) = Inr b2"
    using EqRatio_check_eqr_total(2) [of ops table s a b c d m n] by (elim exE)
  obtain b3 where b3: "EqRatio_check ops table (eqr3 s a b c d m n) = Inr b3"
    using EqRatio_check_eqr_total(3) [of ops table s a b c d m n] by (elim exE)
  have eq: "EqRatio3_check ops table s = Inr (b1 \<and> b2 \<and> b3)"
    unfolding EqRatio3_check_unfold [OF assms(2)] using b1 b2 b3 by (simp add: and_then_def)
  have iff: "(EqRatio3_check ops table s = Inr True) =
      (EqRatio_check ops table (eqr1 s a b c d m n) = Inr True \<and>
       EqRatio_check ops table (eqr2 s a b c d m n) = Inr True \<and>
       EqRatio_check ops table (eqr3 s a b c d m n) = Inr True)"
    using eq b1 b2 b3 by simp
  have total_check: "\<exists>r. EqRatio3_check ops table s = Inr r"
    using eq by simp
  from EqRatio3_add_unfold [OF assms(1)] total_add iff total_check
  show ?thesis by (intro conjI)
qed

theorem EqRatio3_add_check_decompose_witness:
  "args (statement (mk st6 Ratio_Chase [])) = [1, 2, 3, 4, 5, 6] \<and> args st6 = [1, 2, 3, 4, 5, 6] \<and>
   EqRatio3_add list_table_ops (mk st6 Ratio_Chase []) [] =
     Inr [((5, 1), (5, 3), (6, 2), (6, 4)), ((5, 1), (1, 3), (2, 6), (2, 4)),
          ((5, 3), (1, 3), (6, 4), (2, 4))] \<and>
   EqRatio3_check list_table_ops [((5, 1), (5, 3), (6, 2), (6, 4))] st6 = Inr False"
proof -
  have a: "args (statement (mk st6 Ratio_Chase [])) = [1, 2, 3, 4, 5, 6]"
    and b: "args st6 = [1, 2, 3, 4, 5, 6]"
    by (simp_all add: mk_def st6_def)
  note T = EqRatio3_add_check_decompose [OF a b, of list_table_ops]
  have 1: "EqRatio3_add list_table_ops (mk st6 Ratio_Chase []) [] =
     Inr [((5, 1), (5, 3), (6, 2), (6, 4)), ((5, 1), (1, 3), (2, 6), (2, 4)),
          ((5, 3), (1, 3), (6, 4), (2, 4))]"
    using T [of "[]", THEN conjunct1]
    by (simp add: list_table_add list_table_prep_ar dep_with_new_def)
  have 2: "EqRatio3_check list_table_ops [((5, 1), (5, 3), (6, 2), (6, 4))] st6 \<noteq> Inr True"
    using T [of "[((5, 1), (5, 3), (6, 2), (6, 4))]", THEN conjunct2, THEN conjunct2,
        THEN conjunct1]
    by (simp add: list_table_check list_table_prep_ar)
  have 3: "EqRatio3_check list_table_ops [((5, 1), (5, 3), (6, 2), (6, 4))] st6 = Inr False"
    using 2 T [of "[((5, 1), (5, 3), (6, 2), (6, 4))]", THEN conjunct2, THEN conjunct2,
        THEN conjunct2]
    by auto
  show ?thesis using a b 1 3 by simp
qed

section \<open>\<^verbatim>\<open>EqRatio.to_constructive\<close>\<close>

text \<open>
  Claim C6. When the point is one of the eight arguments, \<^verbatim>\<open>to_constructive\<close> returns the
  string of the token \<^verbatim>\<open>eqratio\<close> followed by eight point tokens: the first of them is the
  point, and the eight are the eight arguments in some order.
\<close>

theorem to_constructive_target_first:
  assumes "point \<in> set [a, b, c, d, e, f, g, h]"
  shows "\<exists>ts. to_constructive point [a, b, c, d, e, f, g, h]
         = Inr (Some (unwords (''eqratio'' # ts)))
     \<and> hd ts = point \<and> mset ts = mset [a, b, c, d, e, f, g, h]"
proof -
  consider (h) "point = h" | (g) "point \<noteq> h" "point = g"
    | (f) "point \<noteq> h" "point \<noteq> g" "point = f"
    | (e) "point \<noteq> h" "point \<noteq> g" "point \<noteq> f" "point = e"
    | (d) "point \<noteq> h" "point \<noteq> g" "point \<noteq> f" "point \<noteq> e" "point = d"
    | (c) "point \<noteq> h" "point \<noteq> g" "point \<noteq> f" "point \<noteq> e" "point \<noteq> d" "point = c"
    | (b) "point \<noteq> h" "point \<noteq> g" "point \<noteq> f" "point \<noteq> e" "point \<noteq> d" "point \<noteq> c"
          "point = b"
    | (a) "point \<noteq> h" "point \<noteq> g" "point \<noteq> f" "point \<noteq> e" "point \<noteq> d" "point \<noteq> c"
          "point \<noteq> b" "point = a"
    using assms by auto
  then show ?thesis
  proof cases
    case h then show ?thesis by (intro exI [of _ "[h, a, b, c, d, e, f, g]"]) simp
  next
    case g then show ?thesis by (intro exI [of _ "[g, a, b, c, d, e, f, h]"]) simp
  next
    case f then show ?thesis by (intro exI [of _ "[f, c, d, a, b, g, h, e]"]) simp
  next
    case e then show ?thesis by (intro exI [of _ "[e, c, d, a, b, g, h, f]"]) simp
  next
    case d then show ?thesis by (intro exI [of _ "[d, e, f, g, h, a, b, c]"]) simp
  next
    case c then show ?thesis by (intro exI [of _ "[c, e, f, g, h, a, b, d]"]) simp
  next
    case b then show ?thesis by (intro exI [of _ "[b, g, h, e, f, c, d, a]"]) simp
  next
    case a then show ?thesis by (intro exI [of _ "[a, g, h, e, f, c, d, b]"]) simp
  qed
qed

theorem to_constructive_target_first_witness:
  "''c'' \<in> set [''a'', ''b'', ''c'', ''d'', ''e'', ''f'', ''g'', ''h''] \<and>
   (\<exists>ts. to_constructive ''c'' [''a'', ''b'', ''c'', ''d'', ''e'', ''f'', ''g'', ''h'']
         = Inr (Some (unwords (''eqratio'' # ts)))
     \<and> hd ts = ''c'' \<and> mset ts = mset [''a'', ''b'', ''c'', ''d'', ''e'', ''f'', ''g'', ''h''])
   \<and> to_constructive ''c'' [''a'', ''b'', ''c'', ''d'', ''e'', ''f'', ''g'', ''h'']
       = Inr (Some ''eqratio c e f g h a b d'')"
proof -
  have m: "''c'' \<in> set [''a'', ''b'', ''c'', ''d'', ''e'', ''f'', ''g'', ''h'']"
    by simp
  have v: "to_constructive ''c'' [''a'', ''b'', ''c'', ''d'', ''e'', ''f'', ''g'', ''h'']
       = Inr (Some ''eqratio c e f g h a b d'')"
    by simp
  from m to_constructive_target_first [OF m] v show ?thesis by (intro conjI)
qed

text \<open>
  Claim C10. When the point is none of the eight arguments, \<^verbatim>\<open>to_constructive\<close> falls
  through every test and returns \<^verbatim>\<open>None\<close>, not a statement string.
\<close>

theorem to_constructive_falls_through:
  assumes "point \<notin> set [a, b, c, d, e, f, g, h]"
  shows "to_constructive point [a, b, c, d, e, f, g, h] = Inr None"
  using assms by simp

theorem to_constructive_falls_through_witness:
  "''z'' \<notin> set [''a'', ''b'', ''c'', ''d'', ''e'', ''f'', ''g'', ''h''] \<and>
   to_constructive ''z'' [''a'', ''b'', ''c'', ''d'', ''e'', ''f'', ''g'', ''h''] = Inr None"
proof -
  have m: "''z'' \<notin> set [''a'', ''b'', ''c'', ''d'', ''e'', ''f'', ''g'', ''h'']"
    by simp
  from m to_constructive_falls_through [OF m] show ?thesis by (intro conjI)
qed

section \<open>\<^verbatim>\<open>EqRatio\<close> canonicalization\<close>

text \<open>
  Claim C9. \<^verbatim>\<open>EqRatio.preparse\<close> returns what \<^verbatim>\<open>EqAngle.preparse\<close> returns on the same
  arguments, and \<^verbatim>\<open>EqRatio.parse\<close> what \<^verbatim>\<open>EqAngle.parse\<close> returns on the same arguments and
  dependency graph, whatever the two methods of \<^verbatim>\<open>EqAngle\<close> are.
\<close>

theorem EqRatio_canon_is_EqAngle:
  "EqRatio_preparse EqAngle_preparse args' = EqAngle_preparse args' \<and>
   EqRatio_parse EqAngle_parse args' dep_graph = EqAngle_parse args' dep_graph"
  by (simp add: EqRatio_preparse_def EqRatio_parse_def)

section \<open>The canonical form of \<^verbatim>\<open>eqratio3\<close>\<close>

lemma groups_key_map: "groups_key k xs = map (pair_key k) xs"
  by (simp add: groups_key_def pair_key_def)

lemma map_insort_key: "map f (insort_key f x xs) = insort (f x) (map f xs)"
  by (induction xs) simp_all

lemma map_sort_key: "map f (sort_key f xs) = sort (map f xs)"
  by (induction xs) (simp_all add: map_insort_key)

lemma sort_mset_cong: "mset xs = mset ys \<Longrightarrow> sort xs = sort ys"
  by (metis sorted_list_of_multiset_mset)

lemma key_sort_cong:
  "mset xs = mset ys \<Longrightarrow> map f (sort_key f xs) = map f (sort_key f ys)"
  by (simp add: map_sort_key sort_mset_cong)

lemma swap_swap_map: "map prod.swap (map prod.swap xs) = xs"
  by (simp add: comp_def)

lemma EqRatio3_preparse_canon:
  "EqRatio3_preparse k [a, b, c, d, m, n] =
     (if card {a, c, m} < 3 \<or> card {b, d, n} < 3 then Inr None
      else Inr (Some (sum_tuples (canon k [(a, b), (c, d), (m, n)]))))"
  by (simp add: canon_def Let_def)

lemma canon_cases:
  "canon k G = sort_key (pair_key k) G \<or> canon k G = sort_key (pair_key k) (map prod.swap G)"
  by (simp add: canon_def py_min2_def)

lemma canon_idem: "canon k (canon k G) = canon k G"
proof -
  let ?pk = "pair_key k"
  let ?S = "sort_key ?pk G" and ?S1 = "sort_key ?pk (map prod.swap G)"
  show ?thesis
  proof (cases "map ?pk ?S1 < map ?pk ?S")
    case True
    then have c: "canon k G = ?S1" by (simp add: canon_def py_min2_def groups_key_map)
    have s: "sort_key ?pk ?S1 = ?S1" by (simp add: sort_key_id_if_sorted)
    have "mset (map prod.swap ?S1) = mset G"
      by (simp add: multiset.map_comp comp_def)
    then have "map ?pk (sort_key ?pk (map prod.swap ?S1)) = map ?pk ?S"
      by (rule key_sort_cong)
    moreover from True have "\<not> map ?pk ?S < map ?pk ?S1"
      by (simp add: not_less less_imp_le)
    ultimately show ?thesis
      unfolding c by (simp add: canon_def [of k ?S1] py_min2_def groups_key_map s)
  next
    case False
    then have c: "canon k G = ?S" by (simp add: canon_def py_min2_def groups_key_map)
    have s: "sort_key ?pk ?S = ?S" by (simp add: sort_key_id_if_sorted)
    have "mset (map prod.swap ?S) = mset (map prod.swap G)" by simp
    then have "map ?pk (sort_key ?pk (map prod.swap ?S)) = map ?pk ?S1"
      by (rule key_sort_cong)
    with False show ?thesis
      unfolding c by (simp add: canon_def [of k ?S] py_min2_def groups_key_map s)
  qed
qed

lemma length3E:
  assumes "length (R :: ('a \<times> 'b) list) = 3"
  obtains x1 y1 x2 y2 x3 y3 where "R = [(x1, y1), (x2, y2), (x3, y3)]"
proof -
  from assms obtain p1 p2 p3 where "R = [p1, p2, p3]"
    by (auto simp: length_Suc_conv numeral_3_eq_3)
  then have "R = [(fst p1, snd p1), (fst p2, snd p2), (fst p3, snd p3)]" by simp
  then show thesis by (rule that)
qed

lemma length_canon: "length (canon k G) = length G"
  using canon_cases [of k G] by auto

lemma canon_sets:
  "(fst ` set (canon k G) = fst ` set G \<and> snd ` set (canon k G) = snd ` set G) \<or>
   (fst ` set (canon k G) = snd ` set G \<and> snd ` set (canon k G) = fst ` set G)"
  using canon_cases [of k G] by (auto simp: image_iff) force+


lemma sum_tuples3: "sum_tuples [(x1, y1), (x2, y2), (x3, y3)] = [x1, y1, x2, y2, x3, y3]"
  by (simp add: sum_tuples_def)

text \<open>
  Claim C2. \<^verbatim>\<open>EqRatio3.preparse\<close> returns \<^verbatim>\<open>None\<close> exactly when the points \<open>a, c, m\<close> or the
  points \<open>b, d, n\<close> are fewer than three distinct points. In particular an input whose
  first and fifth points are the same is rejected, by \<^verbatim>\<open>preparse\<close> and by \<^verbatim>\<open>parse\<close>,
  neither of which has access to a table.
\<close>

theorem EqRatio3_preparse_rejects:
  "(EqRatio3_preparse custom_key [a, b, c, d, m, n] = Inr None) =
     (card {a, c, m} < 3 \<or> card {b, d, n} < 3)
   \<and> EqRatio3_preparse custom_key [a, b, c, d, a, n] = Inr None
   \<and> EqRatio3_parse custom_key names2points [a, b, c, d, a, n] = Inr None"
proof -
  have "card {a, c, a} < 3"
    by (simp add: card_insert_if)
  then show ?thesis
    by (simp add: EqRatio3_preparse_canon EqRatio3_parse_def del: EqRatio3_preparse.simps)
qed

text \<open>
  Claim C3. Canonicalization is idempotent: when \<^verbatim>\<open>EqRatio3.preparse\<close> does not reject six
  point names, it returns its own output unchanged when applied to it. This holds for every
  key function.
\<close>

theorem EqRatio3_preparse_idempotent:
  assumes "EqRatio3_preparse custom_key [a, b, c, d, m, n] = Inr (Some out)"
  shows "EqRatio3_preparse custom_key out = Inr (Some out)"
proof -
  let ?G = "[(a, b), (c, d), (m, n)]"
  from assms have nd: "\<not> card {a, c, m} < 3" "\<not> card {b, d, n} < 3"
    and out: "out = sum_tuples (canon custom_key ?G)"
    by (auto simp: EqRatio3_preparse_canon simp del: EqRatio3_preparse.simps split: if_splits)
  have "length (canon custom_key ?G) = 3"
    by (simp add: length_canon)
  then obtain x1 y1 x2 y2 x3 y3 where R: "canon custom_key ?G = [(x1, y1), (x2, y2), (x3, y3)]"
    by (rule length3E)
  have sets: "({x1, x2, x3} = {a, c, m} \<and> {y1, y2, y3} = {b, d, n}) \<or>
              ({x1, x2, x3} = {b, d, n} \<and> {y1, y2, y3} = {a, c, m})"
    using canon_sets [of custom_key ?G] unfolding R by simp
  then have nd': "\<not> card {x1, x2, x3} < 3" "\<not> card {y1, y2, y3} < 3"
    using nd by auto
  have "canon custom_key [(x1, y1), (x2, y2), (x3, y3)] = [(x1, y1), (x2, y2), (x3, y3)]"
    using canon_idem [of custom_key ?G] unfolding R .
  then have "EqRatio3_preparse custom_key [x1, y1, x2, y2, x3, y3]
      = Inr (Some [x1, y1, x2, y2, x3, y3])"
    using nd' by (simp add: EqRatio3_preparse_canon sum_tuples3 del: EqRatio3_preparse.simps)
  then show ?thesis
    unfolding out R sum_tuples3 .
qed

lemma preparse_example:
  "EqRatio3_preparse (\<lambda>s :: string. s) [''n'', ''m'', ''b'', ''a'', ''d'', ''c'']
     = Inr (Some [''a'', ''b'', ''c'', ''d'', ''m'', ''n''])"
  by code_simp

theorem EqRatio3_preparse_idempotent_witness:
  "EqRatio3_preparse (\<lambda>s :: string. s) [''n'', ''m'', ''b'', ''a'', ''d'', ''c'']
     = Inr (Some [''a'', ''b'', ''c'', ''d'', ''m'', ''n'']) \<and>
   EqRatio3_preparse (\<lambda>s :: string. s) [''a'', ''b'', ''c'', ''d'', ''m'', ''n'']
     = Inr (Some [''a'', ''b'', ''c'', ''d'', ''m'', ''n''])"
proof -
  have e: "EqRatio3_preparse (\<lambda>s :: string. s) [''n'', ''m'', ''b'', ''a'', ''d'', ''c'']
     = Inr (Some [''a'', ''b'', ''c'', ''d'', ''m'', ''n''])"
    by (rule preparse_example)
  from e EqRatio3_preparse_idempotent [OF e] show ?thesis by (intro conjI)
qed

lemma inj_on_pair_key:
  assumes "inj_on k P" and "fst ` A \<subseteq> P" and "snd ` A \<subseteq> P"
  shows "inj_on (pair_key k) A"
proof (rule inj_onI)
  fix x y assume "x \<in> A" "y \<in> A" "pair_key k x = pair_key k y"
  then have "k (fst x) = k (fst y)" "k (snd x) = k (snd y)"
    and "fst x \<in> P" "fst y \<in> P" "snd x \<in> P" "snd y \<in> P"
    using assms(2,3) by (auto simp: pair_key_def)
  with assms(1) have "fst x = fst y" "snd x = snd y"
    by (auto dest: inj_onD)
  then show "x = y" by (simp add: prod_eq_iff)
qed

lemma canon_swap:
  assumes "inj_on (pair_key k) (set G \<union> set (map prod.swap G))"
  shows "canon k (map prod.swap G) = canon k G"
proof -
  let ?pk = "pair_key k"
  let ?S = "sort_key ?pk G" and ?S1 = "sort_key ?pk (map prod.swap G)"
  have c1: "canon k (map prod.swap G) = (if map ?pk ?S < map ?pk ?S1 then ?S else ?S1)"
    by (simp add: canon_def py_min2_def groups_key_map swap_swap_map del: map_map)
  have c2: "canon k G = (if map ?pk ?S1 < map ?pk ?S then ?S1 else ?S)"
    by (simp add: canon_def py_min2_def groups_key_map)
  have "inj_on ?pk (set ?S \<union> set ?S1)"
    using assms by simp
  then have e: "map ?pk ?S = map ?pk ?S1 \<Longrightarrow> ?S = ?S1"
    by (simp add: inj_on_map_eq_map)
  consider "map ?pk ?S < map ?pk ?S1" | "map ?pk ?S1 < map ?pk ?S" | "map ?pk ?S = map ?pk ?S1"
    by (metis less_linear)
  then show ?thesis
  proof cases
    case 1
    then have "\<not> map ?pk ?S1 < map ?pk ?S" by (simp add: not_less less_imp_le)
    with 1 show ?thesis unfolding c1 c2 by simp
  next
    case 2
    then have "\<not> map ?pk ?S < map ?pk ?S1" by (simp add: not_less less_imp_le)
    with 2 show ?thesis unfolding c1 c2 by simp
  next
    case 3
    with e have "?S = ?S1" by simp
    then show ?thesis unfolding c1 c2 by simp
  qed
qed

lemma canon_perm:
  assumes "mset G' = mset G" and "inj_on (pair_key k) (set G \<union> set (map prod.swap G))"
  shows "canon k G' = canon k G"
proof -
  have s: "set G' = set G" using assms(1) by (rule mset_eq_setD)
  have 1: "sort_key (pair_key k) G' = sort_key (pair_key k) G"
    using assms(1)
  proof (rule sort_key_eq_sort_key)
    show "inj_on (pair_key k) (set G')"
      using assms(2) unfolding s by (rule inj_on_subset) simp
  qed
  have "mset (map prod.swap G') = mset (map prod.swap G)"
    using assms(1) by simp
  then have 2: "sort_key (pair_key k) (map prod.swap G') = sort_key (pair_key k) (map prod.swap G)"
  proof (rule sort_key_eq_sort_key)
    show "inj_on (pair_key k) (set (map prod.swap G'))"
      using assms(2) unfolding set_map s by (rule inj_on_subset) simp
  qed
  show ?thesis by (simp add: canon_def 1 2)
qed

text \<open>
  Claim C4. Canonicalization is invariant under the symmetries of \<^verbatim>\<open>eqratio3\<close>: every
  input whose three pairs are the pairs \<open>(a, b), (c, d), (m, n)\<close> in some order, and the same
  input with every pair reversed, has the \<^verbatim>\<open>preparse\<close> output of \<open>(a, b, c, d, m, n)\<close>.
  The key is \<^verbatim>\<open>Predicate.custom_key\<close>, which the spec describes as a total order over point
  identifiers: it is assumed to give the six names different keys.
\<close>

theorem EqRatio3_preparse_symmetric:
  assumes "inj_on custom_key (set [a, b, c, d, m, n])"
    and "mset [(a', b'), (c', d'), (m', n')] = mset [(a, b), (c, d), (m, n)]"
  shows "EqRatio3_preparse custom_key [a', b', c', d', m', n']
           = EqRatio3_preparse custom_key [a, b, c, d, m, n]
       \<and> EqRatio3_preparse custom_key [b', a', d', c', n', m']
           = EqRatio3_preparse custom_key [a, b, c, d, m, n]"
proof -
  let ?G = "[(a, b), (c, d), (m, n)]" and ?G' = "[(a', b'), (c', d'), (m', n')]"
  have s: "set ?G' = set ?G" using assms(2) by (rule mset_eq_setD)
  have "fst ` set ?G' = fst ` set ?G" "snd ` set ?G' = snd ` set ?G"
    unfolding s by simp_all
  then have f: "{a', c', m'} = {a, c, m}" and g: "{b', d', n'} = {b, d, n}"
    by simp_all
  have inj: "inj_on (pair_key custom_key) (set ?G \<union> set (map prod.swap ?G))"
    using assms(1) by (rule inj_on_pair_key) auto
  have inj': "inj_on (pair_key custom_key) (set ?G' \<union> set (map prod.swap ?G'))"
    using inj unfolding set_map s .
  have 1: "canon custom_key ?G' = canon custom_key ?G"
    using assms(2) inj by (rule canon_perm)
  have "canon custom_key (map prod.swap ?G') = canon custom_key ?G'"
    using inj' by (rule canon_swap)
  then have 2: "canon custom_key [(b', a'), (d', c'), (n', m')] = canon custom_key ?G"
    using 1 by simp
  have d: "(card {b', d', n'} < 3 \<or> card {a', c', m'} < 3)
      = (card {a, c, m} < 3 \<or> card {b, d, n} < 3)"
    unfolding f g by auto
  show ?thesis
    unfolding EqRatio3_preparse_canon 1 2 d unfolding f g by simp
qed

theorem EqRatio3_preparse_symmetric_witness:
  "inj_on (\<lambda>s :: string. s) (set [''a'', ''b'', ''c'', ''d'', ''m'', ''n'']) \<and>
   mset [(''m'', ''n''), (''a'', ''b''), (''c'', ''d'')]
     = mset [(''a'', ''b''), (''c'', ''d''), (''m'', ''n'')] \<and>
   EqRatio3_preparse (\<lambda>s :: string. s) [''m'', ''n'', ''a'', ''b'', ''c'', ''d'']
     = EqRatio3_preparse (\<lambda>s. s) [''a'', ''b'', ''c'', ''d'', ''m'', ''n''] \<and>
   EqRatio3_preparse (\<lambda>s :: string. s) [''n'', ''m'', ''b'', ''a'', ''d'', ''c'']
     = EqRatio3_preparse (\<lambda>s. s) [''a'', ''b'', ''c'', ''d'', ''m'', ''n'']"
proof -
  have i: "inj_on (\<lambda>s :: string. s) (set [''a'', ''b'', ''c'', ''d'', ''m'', ''n''])"
    by (rule inj_onI) simp
  have p: "mset [(''m'', ''n''), (''a'', ''b''), (''c'', ''d'')]
     = mset [(''a'', ''b''), (''c'', ''d''), (''m'', ''n'')]"
    by simp
  from i p EqRatio3_preparse_symmetric [OF i p] show ?thesis by (intro conjI) simp_all
qed

section \<open>\<^verbatim>\<open>why\<close>\<close>

lemma fact_table_prep_ar:
  "prep_ar fact_table_ops (eqr1 s a b c d m n) = Inr [((m, a), (m, c), (n, b), (n, d))]"
  "prep_ar fact_table_ops (eqr2 s a b c d m n) = Inr [((m, a), (a, c), (b, n), (b, d))]"
  "prep_ar fact_table_ops (eqr3 s a b c d m n) = Inr [((m, c), (a, c), (n, d), (b, d))]"
  by (simp_all add: prep_ar_8 [OF eqr_args(1)] prep_ar_8 [OF eqr_args(2)]
      prep_ar_8 [OF eqr_args(3)] fact_table_ops_def)

text \<open>
  Claim C5, as amended. \<^verbatim>\<open>EqRatio.why\<close> returns a dependency that carries the queried
  statement and the rule tag \<^verbatim>\<open>Ratio_Chase\<close>, and whose antecedents are the statements of
  the facts the table's \<^verbatim>\<open>why\<close> returns for each expression of \<^verbatim>\<open>_prep_ar\<close>, in order.
  \<^verbatim>\<open>EqRatio3.why\<close> returns a dependency that carries the queried statement and the rule tag
  \<^verbatim>\<open>Ratio_Chase\<close>, and whose antecedents are the three primitive \<^verbatim>\<open>eqratio\<close> statements it
  stands for; it asks the table nothing.
\<close>

theorem why_antecedents:
  assumes "prep_ar ops s = Inr eqs" and "args s' = [a, b, c, d, m, n]"
  shows "EqRatio_why ops table s =
      Inr \<lparr>statement = s, reason = Ratio_Chase,
           why = map statement (concat (map (table_why ops table) eqs))\<rparr>
    \<and> EqRatio3_why s' =
      Inr \<lparr>statement = s', reason = Ratio_Chase,
           why = [eqr1 s' a b c d m n, eqr2 s' a b c d m n, eqr3 s' a b c d m n]\<rparr>"
  using assms by (simp add: EqRatio_why_def EqRatio3_why_def mk_def)

theorem why_antecedents_witness:
  "prep_ar fact_table_ops (eqr1 st6 1 2 3 4 5 6) = Inr [((5, 1), (5, 3), (6, 2), (6, 4))] \<and>
   args st6 = [1, 2, 3, 4, 5, 6] \<and>
   EqRatio_why fact_table_ops table6 (eqr1 st6 1 2 3 4 5 6) =
      Inr \<lparr>statement = eqr1 st6 1 2 3 4 5 6, reason = Ratio_Chase, why = [st6]\<rparr> \<and>
   EqRatio3_why st6 =
      Inr \<lparr>statement = st6, reason = Ratio_Chase,
           why = [eqr1 st6 1 2 3 4 5 6, eqr2 st6 1 2 3 4 5 6, eqr3 st6 1 2 3 4 5 6]\<rparr>"
proof -
  have p: "prep_ar fact_table_ops (eqr1 st6 1 2 3 4 5 6) = Inr [((5, 1), (5, 3), (6, 2), (6, 4))]"
    by (rule fact_table_prep_ar)
  have a: "args st6 = [1, 2, 3, 4, 5, 6]"
    by (simp add: st6_def)
  have w: "map statement (concat (map (table_why fact_table_ops table6)
      [((5, 1), (5, 3), (6, 2), (6, 4))])) = [st6]"
    by (simp add: fact_table_ops_def table6_def given6_def mk_def)
  from why_antecedents [OF p a, of table6] p a w show ?thesis by simp
qed

text \<open>
  Claim C5 as stated fails for \<^verbatim>\<open>EqRatio3.why\<close>. On a table where the three terms of the
  statement \<open>st6\<close> were asserted by a dependency for \<open>st6\<close> itself, the statement holds, the
  facts gathered from the table for the three decomposed expressions are \<open>st6\<close> three times,
  and the antecedents \<^verbatim>\<open>EqRatio3.why\<close> returns are the three primitive statements.
\<close>

theorem EqRatio3_why_not_gathered:
  "EqRatio3_why st6 =
     Inr (mk st6 Ratio_Chase [eqr1 st6 1 2 3 4 5 6, eqr2 st6 1 2 3 4 5 6, eqr3 st6 1 2 3 4 5 6])
   \<and> EqRatio3_check fact_table_ops table6 st6 = Inr True
   \<and> concat (map (gathered fact_table_ops table6)
        [eqr1 st6 1 2 3 4 5 6, eqr2 st6 1 2 3 4 5 6, eqr3 st6 1 2 3 4 5 6]) = [st6, st6, st6]
   \<and> [eqr1 st6 1 2 3 4 5 6, eqr2 st6 1 2 3 4 5 6, eqr3 st6 1 2 3 4 5 6] \<noteq> [st6, st6, st6]"
proof -
  have a: "args st6 = [1, 2, 3, 4, 5, 6]"
    by (simp add: st6_def)
  have 1: "EqRatio3_why st6 =
     Inr (mk st6 Ratio_Chase [eqr1 st6 1 2 3 4 5 6, eqr2 st6 1 2 3 4 5 6, eqr3 st6 1 2 3 4 5 6])"
    using a by (simp add: EqRatio3_why_def)
  have 2: "EqRatio3_check fact_table_ops table6 st6 = Inr True"
    unfolding EqRatio3_check_unfold [OF a]
    by (simp add: EqRatio_check_def fact_table_prep_ar and_then_def)
       (simp add: fact_table_ops_def table6_def)
  have 3: "concat (map (gathered fact_table_ops table6)
        [eqr1 st6 1 2 3 4 5 6, eqr2 st6 1 2 3 4 5 6, eqr3 st6 1 2 3 4 5 6]) = [st6, st6, st6]"
    by (simp add: gathered_def fact_table_prep_ar)
       (simp add: fact_table_ops_def table6_def given6_def mk_def)
  have 4: "[eqr1 st6 1 2 3 4 5 6, eqr2 st6 1 2 3 4 5 6, eqr3 st6 1 2 3 4 5 6] \<noteq> [st6, st6, st6]"
    by (simp add: eqr1_def with_new_def st6_def)
  from 1 2 3 4 show ?thesis by (intro conjI)
qed

section \<open>\<^verbatim>\<open>check_numerical\<close>\<close>

lemma group_ratio_tuple:
  "group_ratio N (a, b, c, d) = fdiv N (distance N a b) (distance N c d)"
  by (simp add: group_ratio_def)

lemma check_numerical_loop_successively:
  "map (group_ratio N) groups = map Inr rs \<Longrightarrow>
   check_numerical_loop N prev groups =
     Inr (successively (close_enough N) (case prev of None \<Rightarrow> rs | Some r \<Rightarrow> r # rs))"
proof (induction groups arbitrary: prev rs)
  case Nil
  then show ?case by (cases prev) simp_all
next
  case (Cons g groups)
  obtain a b c d where g: "g = (a, b, c, d)" by (cases g)
  from Cons.prems obtain r rs' where rs: "rs = r # rs'"
    and r: "fdiv N (distance N a b) (distance N c d) = Inr r"
    and rest: "map (group_ratio N) groups = map Inr rs'"
    by (cases rs) (auto simp: g group_ratio_tuple)
  have IH: "check_numerical_loop N (Some r) groups = Inr (successively (close_enough N) (r # rs'))"
    using Cons.IH [OF rest, of "Some r"] by simp
  show ?case
    by (cases prev) (simp_all add: g r rs IH)
qed

lemma Statement_check_numerical_eqr:
  "Statement_check_numerical N (eqr1 s a b c d m n) = EqRatio_check_numerical N (eqr1 s a b c d m n)"
  "Statement_check_numerical N (eqr2 s a b c d m n) = EqRatio_check_numerical N (eqr2 s a b c d m n)"
  "Statement_check_numerical N (eqr3 s a b c d m n) = EqRatio_check_numerical N (eqr3 s a b c d m n)"
  by (simp_all add: eqr_predicate)

lemma EqRatio3_check_numerical_unfold:
  assumes "args s = [a, b, c, d, m, n]"
  shows "EqRatio3_check_numerical N s =
      and_then (EqRatio_check_numerical N (eqr1 s a b c d m n))
        (and_then (EqRatio_check_numerical N (eqr2 s a b c d m n))
           (EqRatio_check_numerical N (eqr3 s a b c d m n)))"
  unfolding EqRatio3_check_numerical.simps [of N s] Statement_check_numerical_eqr
  using assms by simp

lemma and_then_True:
  "(and_then x (and_then y z) = Inr True) = (x = Inr True \<and> y = Inr True \<and> z = Inr True)"
  by (cases x; cases y; cases z) (auto simp: and_then_def)

text \<open>
  Claim C7, as amended. \<^verbatim>\<open>EqRatio.check_numerical\<close> returns true exactly when the ratio of
  every 4-point group is close enough to the ratio of the group just before it (when every
  ratio can be computed), and \<^verbatim>\<open>EqRatio3.check_numerical\<close> returns true exactly when the
  numerical checks of its three primitive statements return true. Neither takes or returns
  a table: in this model a function can change no state that it does not return.
\<close>

theorem check_numerical_conjunctive:
  assumes "reshape4 (args s) = Inr groups" and "map (group_ratio N) groups = map Inr rs"
    and "args s' = [a, b, c, d, m, n]"
  shows "EqRatio_check_numerical N s = Inr (successively (close_enough N) rs)
    \<and> ((EqRatio3_check_numerical N s' = Inr True) =
        (EqRatio_check_numerical N (eqr1 s' a b c d m n) = Inr True \<and>
         EqRatio_check_numerical N (eqr2 s' a b c d m n) = Inr True \<and>
         EqRatio_check_numerical N (eqr3 s' a b c d m n) = Inr True))"
proof -
  have 1: "EqRatio_check_numerical N s = Inr (successively (close_enough N) rs)"
    using check_numerical_loop_successively [OF assms(2), of None]
    by (simp add: EqRatio_check_numerical_def assms(1))
  have 2: "(EqRatio3_check_numerical N s' = Inr True) =
        (EqRatio_check_numerical N (eqr1 s' a b c d m n) = Inr True \<and>
         EqRatio_check_numerical N (eqr2 s' a b c d m n) = Inr True \<and>
         EqRatio_check_numerical N (eqr3 s' a b c d m n) = Inr True)"
    unfolding EqRatio3_check_numerical_unfold [OF assms(3)] by (rule and_then_True)
  from 1 2 show ?thesis by (intro conjI)
qed

lemma s12_groups:
  "reshape4 (args s12) = Inr [(0, 1, 0, 1), (0, 2, 0, 1), (0, 3, 0, 1)]"
  by (simp add: s12_def)

lemma s12_ratios:
  "map (group_ratio (line_numerics (3 / 2))) [(0, 1, 0, 1), (0, 2, 0, 1), (0, 3, 0, 1)]
     = map Inr [1, 2, 3]"
  by (simp add: group_ratio_def line_numerics_def)

text \<open>
  Claim C7 as stated fails for three groups: with ratios 1, 2, 3 and a tolerance of 3/2 each
  ratio is close enough to the one before it, so \<^verbatim>\<open>EqRatio.check_numerical\<close> returns true,
  while the third ratio is not close enough to the first.
\<close>

theorem check_numerical_not_first:
  "reshape4 (args s12) = Inr [(0, 1, 0, 1), (0, 2, 0, 1), (0, 3, 0, 1)]
   \<and> map (group_ratio (line_numerics (3 / 2))) [(0, 1, 0, 1), (0, 2, 0, 1), (0, 3, 0, 1)]
       = map Inr [1, 2, 3]
   \<and> EqRatio_check_numerical (line_numerics (3 / 2)) s12 = Inr True
   \<and> \<not> close_to_first (line_numerics (3 / 2)) [1, 2, 3]"
proof -
  have 1: "EqRatio_check_numerical (line_numerics (3 / 2)) s12 = Inr True"
    by (simp add: EqRatio_check_numerical_def s12_groups) (simp add: line_numerics_def)
  have 2: "\<not> close_to_first (line_numerics (3 / 2)) [1, 2, 3]"
    by (simp add: close_to_first_def line_numerics_def)
  from s12_groups s12_ratios 1 2 show ?thesis by (intro conjI)
qed

theorem check_numerical_conjunctive_witness:
  "reshape4 (args s12) = Inr [(0, 1, 0, 1), (0, 2, 0, 1), (0, 3, 0, 1)]
   \<and> map (group_ratio (line_numerics (1 / 2))) [(0, 1, 0, 1), (0, 2, 0, 1), (0, 3, 0, 1)]
       = map Inr [1, 2, 3]
   \<and> args st3 = [0, 10, 4, 14, 2, 12]
   \<and> EqRatio_check_numerical (line_numerics (1 / 2)) s12 = Inr False
   \<and> EqRatio3_check_numerical (line_numerics (1 / 2)) st3 = Inr True"
proof -
  have g: "reshape4 (args s12) = Inr [(0, 1, 0, 1), (0, 2, 0, 1), (0, 3, 0, 1)]"
    by (rule s12_groups)
  have r: "map (group_ratio (line_numerics (1 / 2))) [(0, 1, 0, 1), (0, 2, 0, 1), (0, 3, 0, 1)]
       = map Inr [1, 2, 3]"
    by (simp add: group_ratio_def line_numerics_def)
  have a: "args st3 = [0, 10, 4, 14, 2, 12]"
    by (simp add: st3_def)
  note T = check_numerical_conjunctive [OF g r a]
  have 1: "EqRatio_check_numerical (line_numerics (1 / 2)) s12 = Inr False"
    using T [THEN conjunct1] by (simp add: line_numerics_def)
  have 2: "EqRatio3_check_numerical (line_numerics (1 / 2)) st3 = Inr True"
    unfolding T [THEN conjunct2]
    by (simp add: EqRatio_check_numerical_def eqr_args) (simp add: line_numerics_def)
  from g r a 1 2 show ?thesis by (intro conjI)
qed

section \<open>The layers of a proof trace\<close>

lemma new_rule_node_empty: "new_rule_node {} ''a00'' = ''r_a00_1''"
  by (simp add: new_rule_node_def show_nat.simps digit_char_def)

lemma initial_graph1:
  "initial_graph initial1 =
     \<lparr>stmt_map = [''001'' \<mapsto> ''coll a b c [001]''],
      fact_nodes = {''001''},
      rule_nodes = {},
      edges = [],
      node_layer = [''001'' \<mapsto> 1],
      initial_fact_nodes = {''001''}\<rparr>"
proof -
  have "(\<lambda>label. if label \<in> dom initial1 then Some (1 :: int) else None) = [''001'' \<mapsto> 1]"
    by (rule ext) (simp add: initial1_def)
  then show ?thesis
    by (simp add: initial_graph_def) (simp add: initial1_def)
qed

text \<open>
  Claim C8 fails on the code for rule nodes. On the proof \<^verbatim>\<open>cong a b c d [002] a00 [009]\<close>
  with the initial fact \<^verbatim>\<open>001\<close>, the loop adds the rule node \<^verbatim>\<open>r_a00_1\<close> to \<^verbatim>\<open>rule_nodes\<close>,
  finds no valid premise and goes on to the next line: the rule node has no layer, after
  \<^verbatim>\<open>adjust_node_layers\<close> as before, and \<^verbatim>\<open>export_to_json\<close> writes it on layer 1, an odd
  layer.
\<close>

theorem rule_node_without_layer:
  "parse_proof_relations (Some lines1) initial1 = Inr (Some graph1)
   \<and> ''r_a00_1'' \<in> rule_nodes graph1
   \<and> adjust_node_layers [''r_a00_1''] (edges graph1) (node_layer graph1) ''r_a00_1'' = None
   \<and> exported_layer (adjust_node_layers [''r_a00_1''] (edges graph1) (node_layer graph1))
        ''r_a00_1'' = 1"
proof -
  have 1: "parse_proof_relations (Some lines1) initial1 = Inr (Some graph1)"
    by (simp add: parse_proof_relations_def lines1_def initial_graph1 register_conclusion_def
        new_rule_node_empty Let_def graph1_def)
  have 2: "''r_a00_1'' \<in> rule_nodes graph1"
    by (simp add: graph1_def)
  have 3: "adjust_node_layers [''r_a00_1''] (edges graph1) (node_layer graph1) = node_layer graph1"
    by (simp add: adjust_node_layers_def adjust_rule_def graph1_def)
  have 4: "node_layer graph1 ''r_a00_1'' = None"
    by (simp add: graph1_def)
  from 1 2 3 4 show ?thesis by (simp add: exported_layer_def)
qed

lemma is_label_not_rule: "is_label s \<Longrightarrow> \<not> startswith s ''r_''"
  by (cases s) (auto simp: is_label_def startswith_def)

lemma startswith_new_rule_node: "startswith (new_rule_node rns name) ''r_''"
  by (simp add: new_rule_node_def startswith_def)

lemma layered_initial:
  assumes "\<forall>k \<in> dom m. \<not> startswith k ''r_''"
  shows "layered (initial_graph m)"
  using assms by (auto simp: layered_def initial_graph_def split: if_splits)

lemma layered_register:
  assumes "layered g" and "is_label cl"
  shows "layered (register_conclusion g cp cl)"
  using assms is_label_not_rule [OF assms(2)]
  unfolding layered_def register_conclusion_def
  by (auto split: prod.splits)

lemma lookup_layers_ok:
  "set ps \<subseteq> dom nl \<Longrightarrow> \<exists>ls. lookup_layers nl ps = Inr ls"
  by (induction ps) auto

lemma lookup_layers_set:
  "lookup_layers nl ps = Inr ls \<Longrightarrow> ls = map (\<lambda>p. the (nl p)) ps"
  by (induction ps arbitrary: ls) (auto split: option.splits sum.splits)

lemma max_list_mem: "ls \<noteq> [] \<Longrightarrow> max_list ls \<in> set ls"
  by (induction ls rule: max_list.induct) (auto simp: max_def)


lemma layered_proof_step:
  assumes "layered g" and "wf_line line"
  shows "\<exists>g'. proof_step g line = Inr g' \<and> layered g'"
proof (cases line)
  case NoConclusion
  with assms show ?thesis by simp
next
  case (NoRule cp cl)
  with assms show ?thesis by (simp add: layered_register)
next
  case (Step cp cl name ps)
  define g1 where "g1 = register_conclusion g cp cl"
  define rn where "rn = new_rule_node (rule_nodes g1) name"
  define g2 where "g2 = g1\<lparr>rule_nodes := insert rn (rule_nodes g1)\<rparr>"
  define valid where "valid = filter (\<lambda>p. p \<in> dom (stmt_map g2)) ps"
  have lab: "is_label cl" using assms(2) Step by simp
  have L1: "layered g1" unfolding g1_def using assms(1) lab by (rule layered_register)
  have rn: "startswith rn ''r_''" unfolding rn_def by (rule startswith_new_rule_node)
  have cl_fact: "cl \<in> fact_nodes g1" by (simp add: g1_def register_conclusion_def)
  have rn_not_fact: "rn \<notin> fact_nodes g1" using L1 rn by (auto simp: layered_def)
  have cl_not_rule: "cl \<notin> rule_nodes g1" "cl \<noteq> rn"
    using L1 rn is_label_not_rule [OF lab] by (auto simp: layered_def)
  have L2: "layered g2"
    using L1 rn rn_not_fact unfolding layered_def g2_def
    by (auto split: prod.splits)
  have step: "proof_step g line =
      (if valid = [] then Inr g2
       else (case lookup_layers (node_layer g2) valid of
              Inl e \<Rightarrow> Inl e
            | Inr prem_layers \<Rightarrow>
                Inr (g2\<lparr>node_layer := (node_layer g2)(rn \<mapsto> max_list prem_layers + 1,
                            cl \<mapsto> max_list prem_layers + 1 + 1),
                        edges := edges g2 @ map (\<lambda>p. (p, rn)) valid @ [(rn, cl)]\<rparr>)))"
    unfolding Step proof_step.simps Let_def g1_def [symmetric] rn_def [symmetric]
      g2_def [symmetric] valid_def [symmetric] by (simp cong: sum.case_cong)
  show ?thesis
  proof (cases "valid = []")
    case True
    with step L2 show ?thesis by simp
  next
    case False
    have vf: "set valid \<subseteq> fact_nodes g2"
      using L2 unfolding valid_def layered_def by auto
    then have "set valid \<subseteq> dom (node_layer g2)"
      using L2 unfolding layered_def by (auto simp: dom_def) 
    then obtain ls where ls: "lookup_layers (node_layer g2) valid = Inr ls"
      using lookup_layers_ok by blast
    have lsm: "ls = map (\<lambda>p. the (node_layer g2 p)) valid"
      using ls by (rule lookup_layers_set)
    with False have "ls \<noteq> []" by simp
    then have "max_list ls \<in> set ls" by (rule max_list_mem)
    then obtain p where p: "p \<in> set valid" "max_list ls = the (node_layer g2 p)"
      unfolding lsm by auto
    with vf L2 have odd: "odd (max_list ls)"
      unfolding layered_def by force
    define g3 where "g3 = g2\<lparr>node_layer := (node_layer g2)(rn \<mapsto> max_list ls + 1,
                            cl \<mapsto> max_list ls + 1 + 1),
                        edges := edges g2 @ map (\<lambda>p. (p, rn)) valid @ [(rn, cl)]\<rparr>"
    have s3: "proof_step g line = Inr g3"
      using step False ls by (simp add: g3_def)
    have f2: "fact_nodes g2 = fact_nodes g1" "rule_nodes g2 = insert rn (rule_nodes g1)"
      by (simp_all add: g2_def)
    have cl2: "cl \<in> fact_nodes g2" "cl \<notin> rule_nodes g1" "rn \<notin> fact_nodes g2"
      using cl_fact cl_not_rule rn_not_fact by (simp_all add: f2)
    have D: "dom (stmt_map g2) = fact_nodes g2"
      and S: "dom (node_layer g2) \<subseteq> fact_nodes g2 \<union> rule_nodes g2"
      and O: "\<forall>f \<in> fact_nodes g2. \<exists>l. node_layer g2 f = Some l \<and> odd l"
      and NF: "\<forall>f \<in> fact_nodes g2. \<not> startswith f ''r_''"
      and NR: "\<forall>r \<in> rule_nodes g2. startswith r ''r_''"
      and E: "\<forall>r \<in> rule_nodes g2. \<forall>l. node_layer g2 r = Some l \<longrightarrow> even l"
      and B: "\<forall>(u, v) \<in> set (edges g2).
            (u \<in> fact_nodes g2 \<and> v \<in> rule_nodes g2) \<or> (u \<in> rule_nodes g2 \<and> v \<in> fact_nodes g2)"
      using L2 unfolding layered_def by blast+
    have rn2: "rn \<in> rule_nodes g2" by (simp add: f2)
    have c1: "dom (stmt_map g3) = fact_nodes g3"
      using D by (simp add: g3_def)
    have c2: "dom (node_layer g3) \<subseteq> fact_nodes g3 \<union> rule_nodes g3"
      using S cl2(1) rn2 by (auto simp: g3_def)
    have c3: "\<forall>f \<in> fact_nodes g3. \<exists>l. node_layer g3 f = Some l \<and> odd l"
      using O odd cl2(3) by (auto simp: g3_def)
    have c4: "\<forall>f \<in> fact_nodes g3. \<not> startswith f ''r_''"
      using NF by (simp add: g3_def)
    have c5: "\<forall>r \<in> rule_nodes g3. startswith r ''r_''"
      using NR by (simp add: g3_def)
    have c6: "\<forall>r \<in> rule_nodes g3. \<forall>l. node_layer g3 r = Some l \<longrightarrow> even l"
      using E odd cl_not_rule NR is_label_not_rule [OF lab] by (auto simp: g3_def)
    have c7: "\<forall>(u, v) \<in> set (edges g3).
            (u \<in> fact_nodes g3 \<and> v \<in> rule_nodes g3) \<or> (u \<in> rule_nodes g3 \<and> v \<in> fact_nodes g3)"
      using B vf rn2 cl2(1) by (auto simp: g3_def)
    have L3: "layered g3"
      unfolding layered_def using c1 c2 c3 c4 c5 c6 c7 by (intro conjI)
    with s3 show ?thesis by simp
  qed
qed

lemma layered_proof_steps:
  assumes "layered g" and "list_all wf_line ls"
  shows "\<exists>g'. proof_steps g ls = Inr g' \<and> layered g'"
  using assms
proof (induction ls arbitrary: g)
  case Nil
  then show ?case by simp
next
  case (Cons l ls)
  then obtain g1 where g1: "proof_step g l = Inr g1" "layered g1"
    using layered_proof_step [of g l] by auto
  with Cons show ?case by simp
qed


lemma fold_upd:
  "fold (\<lambda>p nl'. nl'(p \<mapsto> t)) ps nl x = (if x \<in> set ps then Some t else nl x)"
  by (induction ps arbitrary: nl) auto

lemma parity_adjust_rule:
  assumes P: "parity F R nl"
    and B: "\<forall>(u, v) \<in> set es. (u \<in> F \<and> v \<in> R) \<or> (u \<in> R \<and> v \<in> F)"
    and disj: "F \<inter> R = {}" and rn: "rn \<in> R"
  shows "parity F R (adjust_rule es nl rn)"
proof -
  define ps where "ps = map fst (filter (\<lambda>e. snd e = rn) es)"
  define rule_layer where "rule_layer = (case nl rn of None \<Rightarrow> 0 | Some l \<Rightarrow> l)"
  have prem: "set ps \<subseteq> F - R"
    using B disj rn unfolding ps_def by fastforce
  have a: "adjust_rule es nl rn =
      (if ps = [] then nl
       else if rule_layer mod 2 = 0
         then fold (\<lambda>p nl'. nl'(p \<mapsto> rule_layer - 1)) ps nl else nl)"
    by (simp add: adjust_rule_def ps_def rule_layer_def Let_def)
  show ?thesis
  proof (cases "ps \<noteq> [] \<and> rule_layer mod 2 = 0")
    case False
    with a P show ?thesis by auto
  next
    case True
    then have "even rule_layer" by (simp add: even_iff_mod_2_eq_zero)
    then have o: "odd (rule_layer - 1)" by simp
    from True a have a': "adjust_rule es nl rn = fold (\<lambda>p nl'. nl'(p \<mapsto> rule_layer - 1)) ps nl"
      by simp
    show ?thesis
      unfolding a' parity_def fold_upd using P prem o unfolding parity_def by auto
  qed
qed

lemma parity_adjust_node_layers:
  assumes "parity F R nl"
    and "\<forall>(u, v) \<in> set es. (u \<in> F \<and> v \<in> R) \<or> (u \<in> R \<and> v \<in> F)"
    and "F \<inter> R = {}" and "set rule_order \<subseteq> R"
  shows "parity F R (adjust_node_layers rule_order es nl)"
  using assms unfolding adjust_node_layers_def
proof (induction rule_order arbitrary: nl)
  case Nil
  then show ?case by simp
next
  case (Cons rn rule_order)
  have "parity F R (adjust_rule es nl rn)"
    using Cons.prems by (intro parity_adjust_rule) auto
  then show ?case using Cons by simp
qed

text \<open>
  What does hold of the layers: when no key of the initial facts starts with \<^verbatim>\<open>r_\<close> and
  the labels are three digits, \<^verbatim>\<open>parse_proof_relations\<close> returns, every edge goes from a
  fact to a rule node or from a rule node to a fact, and after \<^verbatim>\<open>adjust_node_layers\<close>, in
  whatever order it runs, every fact node has an odd layer and every rule node that has a
  layer has an even one.
\<close>

lemma layering_of_well_formed_input:
  assumes "\<forall>k \<in> dom initial_stmt_map. \<not> startswith k ''r_''" and "list_all wf_line ls"
  shows "\<exists>g. parse_proof_relations (Some ls) initial_stmt_map = Inr (Some g)
     \<and> (\<forall>(u, v) \<in> set (edges g).
           (u \<in> fact_nodes g \<and> v \<in> rule_nodes g) \<or> (u \<in> rule_nodes g \<and> v \<in> fact_nodes g))
     \<and> (\<forall>rule_order. set rule_order \<subseteq> rule_nodes g \<longrightarrow>
           parity (fact_nodes g) (rule_nodes g)
             (adjust_node_layers rule_order (edges g) (node_layer g)))"
proof -
  have "layered (initial_graph initial_stmt_map)"
    using assms(1) by (rule layered_initial)
  then obtain g where g: "proof_steps (initial_graph initial_stmt_map) ls = Inr g" "layered g"
    using layered_proof_steps [OF _ assms(2)] by blast
  have p: "parse_proof_relations (Some ls) initial_stmt_map = Inr (Some g)"
    using g(1) by (simp add: parse_proof_relations_def)
  have B: "\<forall>(u, v) \<in> set (edges g).
           (u \<in> fact_nodes g \<and> v \<in> rule_nodes g) \<or> (u \<in> rule_nodes g \<and> v \<in> fact_nodes g)"
    using g(2) unfolding layered_def by blast
  have P: "parity (fact_nodes g) (rule_nodes g) (node_layer g)"
    using g(2) unfolding layered_def parity_def by blast
  have disj: "fact_nodes g \<inter> rule_nodes g = {}"
    using g(2) unfolding layered_def by blast
  have "parity (fact_nodes g) (rule_nodes g) (adjust_node_layers rule_order (edges g) (node_layer g))"
    if "set rule_order \<subseteq> rule_nodes g" for rule_order
    using P B disj that by (rule parity_adjust_node_layers)
  with p B show ?thesis by blast
qed

end
